theory Spec2Isabelle
  imports Complex_Main
begin

section \<open>The exponential leveling system\<close>

text \<open>
  The leveling module exists twice in the repository: the server copy
  (\<^verbatim>\<open>utils/levelingSystem\<close> of the server, CommonJS) and the client copy
  (\<^verbatim>\<open>client/src/utils/levelingSystem.ts\<close>). Both are embedded below, function by
  function, the client copy under the prefix \<open>client_\<close>.

  Numbers. A JavaScript number that holds a point total is modelled as a rational
  (\<^typ>\<open>rat\<close>), so that fractional totals are inputs of the model; levels, step costs and
  cumulative costs are integers (\<^typ>\<open>int\<close>). \<^verbatim>\<open>MULTIPLIER = 1.5\<close> is the rational
  \<open>3 / 2\<close>, \<^verbatim>\<open>Math.pow\<close> with an integer exponent is \<open>powi\<close>, \<^verbatim>\<open>Math.floor\<close> is
  \<open>\<lfloor>_\<rfloor>\<close>.

  Rounding. The sums, differences and comparisons of the module work on integers (and on
  one total), which doubles compute exactly below \<open>2 ^ 53\<close>; they are exact in the model,
  and so is the step cost (\<open>50 * 1.5 ^ k\<close> is exact in doubles for \<open>k \<le> 30\<close>). The quotient
  and the product behind \<^verbatim>\<open>progressPercentage\<close> are not exact in doubles, and the floor of
  the rounded product differs from the floor of the exact one (at 29 points the code
  returns 57, not 58): both are rounded to binary64, to the nearest value and to the even
  mantissa on a tie, by the function \<open>double\<close> below. Overflow, underflow, \<^verbatim>\<open>NaN\<close>, the
  infinities and non-numeric arguments are not modelled.

  Loops. The \<^verbatim>\<open>for\<close> loop of \<^verbatim>\<open>getPointsRequiredForLevel\<close> counts up to a bound and is a
  terminating recursion. The \<^verbatim>\<open>while (true)\<close> loop of \<^verbatim>\<open>calculateLevelFromPoints\<close> has no
  bound of its own: it is a partial function into \<^typ>\<open>int option\<close>, where \<open>None\<close> stands
  for a loop that never exits. No function of the module throws, so there is no error value.
\<close>

subsection \<open>Rounding to binary64\<close>

text \<open>
  \<open>floor_log2 n\<close> is the integer logarithm \<open>\<lfloor>log\<^sub>2 n\<rfloor>\<close> of an integer \<open>n \<ge> 1\<close>, and
  \<open>ceil_log2 n\<close> is \<open>\<lceil>log\<^sub>2 n\<rceil>\<close>.
\<close>

function floor_log2 :: "int \<Rightarrow> int" where
  "floor_log2 n = (if n \<le> 1 then 0 else 1 + floor_log2 (n div 2))"
  by pat_completeness auto

termination
  by (relation "measure nat") auto

declare floor_log2.simps [simp del]

definition ceil_log2 :: "int \<Rightarrow> int" where
  "ceil_log2 n = (if n \<le> 1 then 0 else floor_log2 (n - 1) + 1)"

text \<open>
  The binary exponent \<open>\<lfloor>log\<^sub>2 x\<rfloor>\<close> of a rational \<open>x > 0\<close>: \<open>2 powi binary_exponent x \<le> x\<close>
  and \<open>x < 2 powi (binary_exponent x + 1)\<close> (lemmas \<open>binary_exponent_le\<close> and
  \<open>binary_exponent_gt\<close>).
\<close>

definition binary_exponent :: "rat \<Rightarrow> int" where
  "binary_exponent x =
     (if 1 \<le> x then floor_log2 \<lfloor>x\<rfloor> else - ceil_log2 \<lceil>1 / x\<rceil>)"

text \<open>The nearest integer, the even one of the two on a tie.\<close>

definition round_half_even :: "rat \<Rightarrow> int" where
  "round_half_even z =
     (let f = \<lfloor>z\<rfloor>; d = z - rat_of_int f
      in if d < 1 / 2 then f else if 1 / 2 < d then f + 1
         else if even f then f else f + 1)"

text \<open>
  The double nearest to \<open>x\<close>: \<open>x\<close> is scaled by a power of two to a mantissa in
  \<open>[2 ^ 52, 2 ^ 53)\<close> (lemmas \<open>mantissa_ge\<close> and \<open>mantissa_less\<close>), the mantissa is rounded
  to an integer of 53 bits, and the result is scaled back. This is the value of a
  JavaScript \<^verbatim>\<open>/\<close> or \<^verbatim>\<open>*\<close> whose exact result is \<open>x\<close>, inside the range of the normal
  doubles.
\<close>

definition double :: "rat \<Rightarrow> rat" where
  "double x =
     (if x = 0 then 0
      else let e = binary_exponent \<bar>x\<bar> - 52
           in sgn x * rat_of_int (round_half_even (\<bar>x\<bar> / 2 powi e)) * 2 powi e)"

subsection \<open>Server copy\<close>

definition BASE_POINTS :: rat where
  "BASE_POINTS = 50"

definition MULTIPLIER :: rat where
  "MULTIPLIER = 3 / 2"

text \<open>\<^verbatim>\<open>Math.floor(BASE_POINTS * Math.pow(MULTIPLIER, currentLevel - 1))\<close>\<close>

definition getPointsRequiredForLevelUp :: "int \<Rightarrow> int" where
  "getPointsRequiredForLevelUp currentLevel =
     \<lfloor>BASE_POINTS * MULTIPLIER powi (currentLevel - 1)\<rfloor>"

text \<open>
  The loop \<^verbatim>\<open>for (let i = 1; i < level; i++) totalPoints += getPointsRequiredForLevelUp(i)\<close>,
  entered at counter \<open>i\<close> with accumulator \<open>totalPoints\<close>; its value is the accumulator at
  loop exit.
\<close>

function getPointsRequiredForLevel_loop :: "int \<Rightarrow> int \<Rightarrow> int \<Rightarrow> int" where
  "getPointsRequiredForLevel_loop level i totalPoints =
     (if i < level
      then getPointsRequiredForLevel_loop level (i + 1)
             (totalPoints + getPointsRequiredForLevelUp i)
      else totalPoints)"
  by pat_completeness auto

termination
  by (relation "measure (\<lambda>(level, i, totalPoints). nat (level - i))") auto

declare getPointsRequiredForLevel_loop.simps [simp del]

definition getPointsRequiredForLevel :: "int \<Rightarrow> int" where
  "getPointsRequiredForLevel level =
     (if level \<le> 1 then 0
      else \<lfloor>rat_of_int (getPointsRequiredForLevel_loop level 1 0)\<rfloor>)"

text \<open>
  The body of \<^verbatim>\<open>while (true)\<close> in \<^verbatim>\<open>calculateLevelFromPoints\<close>, entered with the current
  \<open>level\<close> and \<open>pointsUsed\<close>: \<^verbatim>\<open>break\<close> returns the level, otherwise the loop goes round
  with both updated.
\<close>

partial_function (option)
  calculateLevelFromPoints_loop :: "rat \<Rightarrow> int \<Rightarrow> int \<Rightarrow> int option" where
  "calculateLevelFromPoints_loop totalPoints level pointsUsed =
     (let pointsNeeded = getPointsRequiredForLevelUp level in
      if rat_of_int (pointsUsed + pointsNeeded) > totalPoints then Some level
      else calculateLevelFromPoints_loop totalPoints (level + 1) (pointsUsed + pointsNeeded))"

declare calculateLevelFromPoints_loop.simps [code]

definition calculateLevelFromPoints :: "rat \<Rightarrow> int option" where
  "calculateLevelFromPoints totalPoints =
     (if totalPoints < 0 then Some 1
      else calculateLevelFromPoints_loop totalPoints 1 0)"

subsection \<open>Client copy\<close>

definition client_BASE_POINTS :: rat where
  "client_BASE_POINTS = 50"

definition client_MULTIPLIER :: rat where
  "client_MULTIPLIER = 3 / 2"

definition client_getPointsRequiredForLevelUp :: "int \<Rightarrow> int" where
  "client_getPointsRequiredForLevelUp currentLevel =
     \<lfloor>client_BASE_POINTS * client_MULTIPLIER powi (currentLevel - 1)\<rfloor>"

function client_getPointsRequiredForLevel_loop :: "int \<Rightarrow> int \<Rightarrow> int \<Rightarrow> int" where
  "client_getPointsRequiredForLevel_loop level i totalPoints =
     (if i < level
      then client_getPointsRequiredForLevel_loop level (i + 1)
             (totalPoints + client_getPointsRequiredForLevelUp i)
      else totalPoints)"
  by pat_completeness auto

termination
  by (relation "measure (\<lambda>(level, i, totalPoints). nat (level - i))") auto

declare client_getPointsRequiredForLevel_loop.simps [simp del]

definition client_getPointsRequiredForLevel :: "int \<Rightarrow> int" where
  "client_getPointsRequiredForLevel level =
     (if level \<le> 1 then 0
      else \<lfloor>rat_of_int (client_getPointsRequiredForLevel_loop level 1 0)\<rfloor>)"

partial_function (option)
  client_calculateLevelFromPoints_loop :: "rat \<Rightarrow> int \<Rightarrow> int \<Rightarrow> int option" where
  "client_calculateLevelFromPoints_loop totalPoints level pointsUsed =
     (let pointsNeeded = client_getPointsRequiredForLevelUp level in
      if rat_of_int (pointsUsed + pointsNeeded) > totalPoints then Some level
      else client_calculateLevelFromPoints_loop totalPoints (level + 1)
             (pointsUsed + pointsNeeded))"

declare client_calculateLevelFromPoints_loop.simps [code]

definition client_calculateLevelFromPoints :: "rat \<Rightarrow> int option" where
  "client_calculateLevelFromPoints totalPoints =
     (if totalPoints < 0 then Some 1
      else client_calculateLevelFromPoints_loop totalPoints 1 0)"

subsection \<open>Progress reports and level-up detection\<close>

text \<open>
  The object returned by \<^verbatim>\<open>getLevelProgress\<close> (the interface \<^verbatim>\<open>LevelProgress\<close> of the
  client copy). The fields computed from the total by subtraction are rationals, as the
  total is.
\<close>

record LevelProgress =
  currentLevel :: int
  totalPoints :: rat
  pointsInCurrentLevel :: rat
  pointsNeededForNextLevel :: int
  progressPercentage :: int
  pointsToNextLevel :: rat

text \<open>
  \<^verbatim>\<open>getLevelProgress\<close>. The report is computed from the level when the call of
  \<^verbatim>\<open>calculateLevelFromPoints\<close> returns (\<open>map_option\<close>, \<open>Option.bind\<close>), and there is none
  when it does not. \<^verbatim>\<open>Math.floor((pointsInCurrentLevel / pointsNeededForNextLevel) * 100)\<close>
  rounds the quotient to a double, multiplies, rounds the product to a double and takes
  the floor. The divisor is never zero (lemma \<open>getLevelProgress_divisor\<close> below), so the
  value HOL gives to a division by zero is never used.
\<close>

definition getLevelProgress :: "rat \<Rightarrow> LevelProgress option" where
  "getLevelProgress = (\<lambda>totalPoints.
     map_option (\<lambda>currentLevel.
         let pointsRequiredForCurrentLevel = getPointsRequiredForLevel currentLevel;
             pointsRequiredForNextLevel = getPointsRequiredForLevel (currentLevel + 1);
             pointsInCurrentLevel = totalPoints - rat_of_int pointsRequiredForCurrentLevel;
             pointsNeededForNextLevel =
               pointsRequiredForNextLevel - pointsRequiredForCurrentLevel;
             progressPercentage =
               \<lfloor>double
                  (double (pointsInCurrentLevel / rat_of_int pointsNeededForNextLevel)
                     * 100)\<rfloor>
         in \<lparr>currentLevel = currentLevel,
             totalPoints = totalPoints,
             pointsInCurrentLevel = pointsInCurrentLevel,
             pointsNeededForNextLevel = pointsNeededForNextLevel,
             progressPercentage = progressPercentage,
             pointsToNextLevel =
               rat_of_int pointsNeededForNextLevel - pointsInCurrentLevel\<rparr>)
       (calculateLevelFromPoints totalPoints))"

definition client_getLevelProgress :: "rat \<Rightarrow> LevelProgress option" where
  "client_getLevelProgress = (\<lambda>totalPoints.
     map_option (\<lambda>currentLevel.
         let pointsRequiredForCurrentLevel = client_getPointsRequiredForLevel currentLevel;
             pointsRequiredForNextLevel = client_getPointsRequiredForLevel (currentLevel + 1);
             pointsInCurrentLevel = totalPoints - rat_of_int pointsRequiredForCurrentLevel;
             pointsNeededForNextLevel =
               pointsRequiredForNextLevel - pointsRequiredForCurrentLevel;
             progressPercentage =
               \<lfloor>double
                  (double (pointsInCurrentLevel / rat_of_int pointsNeededForNextLevel)
                     * 100)\<rfloor>
         in \<lparr>currentLevel = currentLevel,
             totalPoints = totalPoints,
             pointsInCurrentLevel = pointsInCurrentLevel,
             pointsNeededForNextLevel = pointsNeededForNextLevel,
             progressPercentage = progressPercentage,
             pointsToNextLevel =
               rat_of_int pointsNeededForNextLevel - pointsInCurrentLevel\<rparr>)
       (client_calculateLevelFromPoints totalPoints))"

text \<open>The object returned by \<^verbatim>\<open>checkLevelUp\<close> (server copy only).\<close>

record LevelUp =
  leveledUp :: bool
  oldLevel :: int
  newLevel :: int
  levelsGained :: int

definition checkLevelUp :: "rat \<Rightarrow> rat \<Rightarrow> LevelUp option" where
  "checkLevelUp oldPoints newPoints =
     Option.bind (calculateLevelFromPoints oldPoints) (\<lambda>oldLevel.
     Option.bind (calculateLevelFromPoints newPoints) (\<lambda>newLevel.
       Some \<lparr>leveledUp = newLevel > oldLevel,
              oldLevel = oldLevel,
              newLevel = newLevel,
              levelsGained = newLevel - oldLevel\<rparr>))"

section \<open>Rounding\<close>

lemma floor_log2_bounds:
  "1 \<le> n \<Longrightarrow>
   0 \<le> floor_log2 n \<and> 2 ^ nat (floor_log2 n) \<le> n \<and> n < 2 * 2 ^ nat (floor_log2 n)"
proof (induction n rule: floor_log2.induct)
  case (1 n)
  show ?case
  proof (cases "n \<le> 1")
    case True
    with "1.prems" have "n = 1" by simp
    then show ?thesis by (subst (1 2 3) floor_log2.simps) simp
  next
    case False
    then have m: "1 \<le> n div 2" by simp
    from "1.IH" [OF False m] have IH: "0 \<le> floor_log2 (n div 2)"
      "2 ^ nat (floor_log2 (n div 2)) \<le> n div 2"
      "n div 2 < 2 * 2 ^ nat (floor_log2 (n div 2))" by simp_all
    have eq: "floor_log2 n = 1 + floor_log2 (n div 2)"
      using False by (subst floor_log2.simps) simp
    have nat_eq: "nat (1 + floor_log2 (n div 2)) = Suc (nat (floor_log2 (n div 2)))"
      using IH(1) by simp
    from IH(2,3) have "2 * 2 ^ nat (floor_log2 (n div 2)) \<le> n"
      "n < 2 * (2 * 2 ^ nat (floor_log2 (n div 2)))" by linarith+
    with IH(1) show ?thesis unfolding eq nat_eq by simp
  qed
qed

lemma inverse_power_powi: "1 / (2::rat) ^ n = 2 powi (- int n)"
  by (simp only: power_int_minus power_int_of_nat inverse_eq_divide)

lemma binary_exponent_le:
  assumes "0 < x"
  shows "2 powi binary_exponent x \<le> x"
proof (cases "1 \<le> x")
  case True
  then have n: "1 \<le> \<lfloor>x\<rfloor>" by simp
  from floor_log2_bounds [OF n] have k: "0 \<le> floor_log2 \<lfloor>x\<rfloor>"
    and le: "2 ^ nat (floor_log2 \<lfloor>x\<rfloor>) \<le> \<lfloor>x\<rfloor>" by simp_all
  have "(2::rat) ^ nat (floor_log2 \<lfloor>x\<rfloor>) = rat_of_int (2 ^ nat (floor_log2 \<lfloor>x\<rfloor>))"
    by simp
  also from le have "\<dots> \<le> rat_of_int \<lfloor>x\<rfloor>"
    by (simp only: of_int_le_iff)
  also have "\<dots> \<le> x" by (rule of_int_floor_le)
  finally have "(2::rat) ^ nat (floor_log2 \<lfloor>x\<rfloor>) \<le> x" .
  moreover have "binary_exponent x = int (nat (floor_log2 \<lfloor>x\<rfloor>))"
    using True k by (simp add: binary_exponent_def)
  ultimately show ?thesis by (simp only: power_int_of_nat)
next
  case False
  let ?c = "\<lceil>1 / x\<rceil>"
  from False assms have y: "1 < 1 / x" by simp
  then have c: "1 \<le> ?c - 1" by (simp add: less_ceiling_iff)
  from floor_log2_bounds [OF c] have k: "0 \<le> floor_log2 (?c - 1)"
    and lt: "?c - 1 < 2 * 2 ^ nat (floor_log2 (?c - 1))" by simp_all
  define j where "j = nat (floor_log2 (?c - 1) + 1)"
  have j: "j = Suc (nat (floor_log2 (?c - 1)))" using k by (simp add: j_def)
  from lt have cj: "?c \<le> 2 ^ j" unfolding j by simp
  have "1 / x \<le> rat_of_int ?c" by (rule le_of_int_ceiling)
  also from cj have "\<dots> \<le> rat_of_int (2 ^ j)" by (simp only: of_int_le_iff)
  also have "\<dots> = 2 ^ j" by simp
  finally have "1 / x \<le> 2 ^ j" .
  moreover have "(0::rat) < 2 ^ j" by simp
  ultimately have "1 / 2 ^ j \<le> x" using assms
    by (simp only: pos_divide_le_eq mult.commute)
  moreover have "binary_exponent x = - int j"
    using False c k by (simp add: binary_exponent_def ceil_log2_def j_def)
  ultimately show ?thesis
    by (simp only: inverse_power_powi)
qed

lemma binary_exponent_gt:
  assumes "0 < x"
  shows "x < 2 powi (binary_exponent x + 1)"
proof (cases "1 \<le> x")
  case True
  then have n: "1 \<le> \<lfloor>x\<rfloor>" by simp
  from floor_log2_bounds [OF n] have k: "0 \<le> floor_log2 \<lfloor>x\<rfloor>"
    and lt: "\<lfloor>x\<rfloor> < 2 * 2 ^ nat (floor_log2 \<lfloor>x\<rfloor>)" by simp_all
  define j where "j = Suc (nat (floor_log2 \<lfloor>x\<rfloor>))"
  from lt have le: "\<lfloor>x\<rfloor> + 1 \<le> 2 ^ j" by (simp add: j_def)
  have "x < rat_of_int (\<lfloor>x\<rfloor> + 1)" by linarith
  also from le have "\<dots> \<le> rat_of_int (2 ^ j)" by (simp only: of_int_le_iff)
  also have "\<dots> = 2 ^ j" by simp
  finally have "x < 2 ^ j" .
  moreover have "binary_exponent x + 1 = int j"
    using True k by (simp add: binary_exponent_def j_def)
  ultimately show ?thesis by (simp only: power_int_of_nat)
next
  case False
  let ?c = "\<lceil>1 / x\<rceil>"
  from False assms have y: "1 < 1 / x" by simp
  then have c: "1 \<le> ?c - 1" by (simp add: less_ceiling_iff)
  from floor_log2_bounds [OF c] have k: "0 \<le> floor_log2 (?c - 1)"
    and le: "2 ^ nat (floor_log2 (?c - 1)) \<le> ?c - 1" by simp_all
  define i where "i = nat (floor_log2 (?c - 1))"
  have "(2::rat) ^ i = rat_of_int (2 ^ i)" by simp
  also from le have "\<dots> \<le> rat_of_int (?c - 1)" unfolding i_def by (simp only: of_int_le_iff)
  also have "\<dots> < 1 / x" by linarith
  finally have "2 ^ i < 1 / x" .
  moreover have "(0::rat) < 2 ^ i" by simp
  ultimately have "x < 1 / 2 ^ i" using assms
    by (simp only: pos_less_divide_eq mult.commute)
  moreover have "binary_exponent x + 1 = - int i"
    using False c k by (simp add: binary_exponent_def ceil_log2_def i_def)
  ultimately show ?thesis
    by (simp only: inverse_power_powi)
qed

lemma round_half_even_le:
  assumes "z \<le> rat_of_int N"
  shows "round_half_even z \<le> N"
proof (cases "z = rat_of_int N")
  case True
  then show ?thesis by (simp add: round_half_even_def)
next
  case False
  with assms have "z < rat_of_int N" by simp
  then have "\<lfloor>z\<rfloor> < N" by (simp only: floor_less_iff)
  then have "\<lfloor>z\<rfloor> + 1 \<le> N" by simp
  moreover have "round_half_even z \<le> \<lfloor>z\<rfloor> + 1"
    by (simp add: round_half_even_def Let_def)
  ultimately show ?thesis by linarith
qed

lemma round_half_even_ge:
  assumes "rat_of_int N \<le> z"
  shows "N \<le> round_half_even z"
proof -
  from assms have "N \<le> \<lfloor>z\<rfloor>" by (simp only: le_floor_iff)
  moreover have "\<lfloor>z\<rfloor> \<le> round_half_even z"
    by (simp add: round_half_even_def Let_def)
  ultimately show ?thesis by linarith
qed

lemma mantissa_ge:
  assumes "0 < x"
  shows "2 ^ 52 \<le> x / 2 powi (binary_exponent x - 52)"
proof -
  let ?b = "binary_exponent x"
  have pos: "(0::rat) < 2 powi ?b" by simp
  have pe: "(2::rat) powi (?b - 52) = 2 powi ?b / 2 ^ 52"
    by (simp add: power_int_diff)
  from binary_exponent_le [OF assms] pos have "1 \<le> x / 2 powi ?b"
    by (simp only: pos_le_divide_eq mult_1)
  then have "1 * 2 ^ 52 \<le> x / 2 powi ?b * 2 ^ 52"
    by (intro mult_right_mono) simp_all
  then show ?thesis by (simp add: pe)
qed

lemma mantissa_less:
  assumes "0 < x"
  shows "x / 2 powi (binary_exponent x - 52) < 2 ^ 53"
proof -
  let ?b = "binary_exponent x"
  have pos: "(0::rat) < 2 powi ?b" by simp
  have pe: "(2::rat) powi (?b - 52) = 2 powi ?b / 2 ^ 52"
    by (simp add: power_int_diff)
  have "(2::rat) powi (?b + 1) = 2 powi ?b * 2"
    by (simp add: power_int_add)
  with binary_exponent_gt [OF assms] pos have "x / 2 powi ?b < 2"
    by (simp only: pos_divide_less_eq mult.commute)
  then have "x / 2 powi ?b * 2 ^ 52 < 2 * 2 ^ 52"
    by (intro mult_strict_right_mono) simp_all
  then show ?thesis by (simp add: pe)
qed

lemma double_0: "double 0 = 0"
  by (simp add: double_def)

lemma double_of_pos:
  assumes "0 < x"
  shows "double x =
    rat_of_int (round_half_even (x / 2 powi (binary_exponent x - 52)))
      * 2 powi (binary_exponent x - 52)"
  using assms by (simp add: double_def Let_def)

lemma double_minus: "double (- x) = - double x"
  by (simp add: double_def Let_def sgn_minus)

lemma double_pos:
  assumes "0 < x"
  shows "0 < double x"
proof -
  have "rat_of_int (2 ^ 52) \<le> x / 2 powi (binary_exponent x - 52)"
    using mantissa_ge [OF assms] by simp
  then have "2 ^ 52 \<le> round_half_even (x / 2 powi (binary_exponent x - 52))"
    by (rule round_half_even_ge)
  then have "0 < round_half_even (x / 2 powi (binary_exponent x - 52))"
    by (rule less_le_trans [rotated]) simp
  then show ?thesis
    by (simp add: double_of_pos [OF assms] zero_less_mult_iff)
qed

lemma double_neg:
  assumes "x < 0"
  shows "double x < 0"
proof -
  from assms have "0 < double (- x)" by (intro double_pos) simp
  then show ?thesis by (simp add: double_minus)
qed

lemma double_nonneg: "0 \<le> x \<Longrightarrow> 0 \<le> double x"
  using double_pos [of x] by (cases "x = 0") (simp_all add: double_0 less_imp_le)

lemma double_le_int:
  assumes "0 < x" and "x \<le> rat_of_int c" and "c \<le> 2 ^ 52"
  shows "double x \<le> rat_of_int c"
proof -
  define e where "e = binary_exponent x - 52"
  have "(2::rat) powi binary_exponent x \<le> x" using assms(1) by (rule binary_exponent_le)
  also note assms(2)
  also from assms(3) have "rat_of_int c \<le> rat_of_int (2 ^ 52)" by (simp only: of_int_le_iff)
  also have "rat_of_int (2 ^ 52) = 2 powi 52"
    by (simp only: of_int_power of_int_numeral power_int_numeral)
  finally have le: "(2::rat) powi binary_exponent x \<le> 2 powi 52" .
  have "binary_exponent x \<le> 52"
    by (rule power_int_le_imp_le_exp [OF _ le]) simp_all
  then have e: "e = - int (nat (- e))" by (simp add: e_def)
  define k where "k = nat (- e)"
  have pe: "(2::rat) powi e = 1 / 2 ^ k"
    by (subst e) (simp only: inverse_power_powi k_def)
  have "x / 2 powi e = x * 2 ^ k" unfolding pe by (simp only: divide_divide_eq_right div_by_1)
  also from assms(2) have "\<dots> \<le> rat_of_int c * 2 ^ k"
    by (intro mult_right_mono) simp_all
  also have "\<dots> = rat_of_int (c * 2 ^ k)"
    by (simp only: of_int_mult of_int_power of_int_numeral)
  finally have "round_half_even (x / 2 powi e) \<le> c * 2 ^ k"
    by (rule round_half_even_le)
  then have "rat_of_int (round_half_even (x / 2 powi e)) \<le> rat_of_int (c * 2 ^ k)"
    by (simp only: of_int_le_iff)
  then have "rat_of_int (round_half_even (x / 2 powi e)) * (1 / 2 ^ k)
      \<le> rat_of_int (c * 2 ^ k) * (1 / 2 ^ k)"
    by (intro mult_right_mono) simp_all
  also have "\<dots> = rat_of_int c"
    by (simp only: of_int_mult of_int_power of_int_numeral) simp
  finally show ?thesis
    unfolding double_of_pos [OF assms(1)] e_def [symmetric] pe .
qed

section \<open>Step costs and cumulative costs\<close>

lemma MULTIPLIER_powi:
  assumes "1 \<le> l"
  shows "MULTIPLIER powi (l - 1) = (3 / 2) ^ nat (l - 1)"
  using assms by (simp add: power_int_def MULTIPLIER_def)

lemma getPointsRequiredForLevelUp_div:
  assumes "1 \<le> l"
  shows "getPointsRequiredForLevelUp l = (50 * 3 ^ nat (l - 1)) div 2 ^ nat (l - 1)"
proof -
  have "BASE_POINTS * MULTIPLIER powi (l - 1)
          = rat_of_int (50 * 3 ^ nat (l - 1)) / rat_of_int (2 ^ nat (l - 1))"
    by (simp add: MULTIPLIER_powi [OF assms] BASE_POINTS_def power_divide)
  then show ?thesis
    unfolding getPointsRequiredForLevelUp_def by (simp only: floor_divide_of_int_eq)
qed

lemma getPointsRequiredForLevelUp_ge:
  assumes "1 \<le> l"
  shows "50 \<le> getPointsRequiredForLevelUp l"
proof -
  have "(1::rat) \<le> (3 / 2) ^ nat (l - 1)"
    by (rule one_le_power) simp
  then have "rat_of_int 50 \<le> BASE_POINTS * MULTIPLIER powi (l - 1)"
    by (simp add: MULTIPLIER_powi [OF assms] BASE_POINTS_def)
  then show ?thesis
    unfolding getPointsRequiredForLevelUp_def by (simp only: le_floor_iff)
qed

lemma getPointsRequiredForLevel_loop_exit:
  "\<not> i < level \<Longrightarrow> getPointsRequiredForLevel_loop level i acc = acc"
  by (subst getPointsRequiredForLevel_loop.simps) simp

lemma getPointsRequiredForLevel_loop_iter:
  "i < level \<Longrightarrow>
   getPointsRequiredForLevel_loop level i acc
     = getPointsRequiredForLevel_loop level (i + 1) (acc + getPointsRequiredForLevelUp i)"
  by (subst getPointsRequiredForLevel_loop.simps) simp

lemma getPointsRequiredForLevel_loop_snoc:
  "i \<le> level \<Longrightarrow>
   getPointsRequiredForLevel_loop (level + 1) i acc
     = getPointsRequiredForLevel_loop level i acc + getPointsRequiredForLevelUp level"
proof (induction level i acc rule: getPointsRequiredForLevel_loop.induct)
  case (1 level i acc)
  show ?case
  proof (cases "i < level")
    case True
    then have "getPointsRequiredForLevel_loop (level + 1) i acc
        = getPointsRequiredForLevel_loop (level + 1) (i + 1)
            (acc + getPointsRequiredForLevelUp i)"
      by (intro getPointsRequiredForLevel_loop_iter) simp
    also have "\<dots> = getPointsRequiredForLevel_loop level (i + 1)
            (acc + getPointsRequiredForLevelUp i) + getPointsRequiredForLevelUp level"
      using True by (intro "1.IH") simp_all
    also have "getPointsRequiredForLevel_loop level (i + 1)
            (acc + getPointsRequiredForLevelUp i) = getPointsRequiredForLevel_loop level i acc"
      using True by (rule getPointsRequiredForLevel_loop_iter [symmetric])
    finally show ?thesis .
  next
    case False
    with "1.prems" have eq: "i = level" by simp
    have "getPointsRequiredForLevel_loop (level + 1) level acc
        = getPointsRequiredForLevel_loop (level + 1) (level + 1)
            (acc + getPointsRequiredForLevelUp level)"
      by (intro getPointsRequiredForLevel_loop_iter) simp
    also have "\<dots> = acc + getPointsRequiredForLevelUp level"
      by (intro getPointsRequiredForLevel_loop_exit) simp
    finally have "getPointsRequiredForLevel_loop (level + 1) level acc
        = acc + getPointsRequiredForLevelUp level" .
    moreover have "getPointsRequiredForLevel_loop level level acc = acc"
      by (intro getPointsRequiredForLevel_loop_exit) simp
    ultimately show ?thesis unfolding eq by (simp only:)
  qed
qed

lemma getPointsRequiredForLevel_1: "getPointsRequiredForLevel 1 = 0"
  by (simp add: getPointsRequiredForLevel_def)

lemma getPointsRequiredForLevel_2: "getPointsRequiredForLevel 2 = getPointsRequiredForLevelUp 1"
proof -
  have "getPointsRequiredForLevel_loop 2 1 0
      = getPointsRequiredForLevel_loop 2 (1 + 1) (0 + getPointsRequiredForLevelUp 1)"
    by (intro getPointsRequiredForLevel_loop_iter) simp
  also have "\<dots> = 0 + getPointsRequiredForLevelUp 1"
    by (intro getPointsRequiredForLevel_loop_exit) simp
  finally show ?thesis
    by (simp add: getPointsRequiredForLevel_def)
qed

lemma getPointsRequiredForLevel_step:
  assumes "1 \<le> l"
  shows "getPointsRequiredForLevel (l + 1)
           = getPointsRequiredForLevel l + getPointsRequiredForLevelUp l"
proof (cases "l = 1")
  case True
  then show ?thesis
    by (simp add: getPointsRequiredForLevel_1 getPointsRequiredForLevel_2)
next
  case False
  with assms have "1 \<le> l" "\<not> l \<le> 1" "\<not> l + 1 \<le> 1" by simp_all
  then show ?thesis
    by (simp only: getPointsRequiredForLevel_def getPointsRequiredForLevel_loop_snoc
        if_False floor_of_int)
qed

lemma getPointsRequiredForLevelUp_values:
  "getPointsRequiredForLevelUp 1 = 50"
  "getPointsRequiredForLevelUp 2 = 75"
  "getPointsRequiredForLevelUp 3 = 112"
  "getPointsRequiredForLevelUp 4 = 168"
  by (simp_all add: getPointsRequiredForLevelUp_div)

lemma getPointsRequiredForLevel_values:
  "getPointsRequiredForLevel 2 = 50"
  "getPointsRequiredForLevel 3 = 125"
  "getPointsRequiredForLevel 4 = 237"
  "getPointsRequiredForLevel 5 = 405"
proof -
  show 2: "getPointsRequiredForLevel 2 = 50"
    by (simp add: getPointsRequiredForLevel_2 getPointsRequiredForLevelUp_values)
  show 3: "getPointsRequiredForLevel 3 = 125"
    using getPointsRequiredForLevel_step [of 2]
    by (simp add: 2 getPointsRequiredForLevelUp_values)
  show 4: "getPointsRequiredForLevel 4 = 237"
    using getPointsRequiredForLevel_step [of 3]
    by (simp add: 3 getPointsRequiredForLevelUp_values)
  show "getPointsRequiredForLevel 5 = 405"
    using getPointsRequiredForLevel_step [of 4]
    by (simp add: 4 getPointsRequiredForLevelUp_values)
qed

section \<open>The level loop\<close>

lemma calculateLevelFromPoints_loop_break:
  "t < rat_of_int (pointsUsed + getPointsRequiredForLevelUp level) \<Longrightarrow>
   calculateLevelFromPoints_loop t level pointsUsed = Some level"
  by (subst calculateLevelFromPoints_loop.simps) simp

lemma calculateLevelFromPoints_loop_iter:
  "\<not> t < rat_of_int (pointsUsed + getPointsRequiredForLevelUp level) \<Longrightarrow>
   calculateLevelFromPoints_loop t level pointsUsed
     = calculateLevelFromPoints_loop t (level + 1)
         (pointsUsed + getPointsRequiredForLevelUp level)"
  by (subst calculateLevelFromPoints_loop.simps) simp

lemma calculateLevelFromPoints_loop_correct:
  assumes "1 \<le> level"
    and "pointsUsed = getPointsRequiredForLevel level"
    and "rat_of_int pointsUsed \<le> t"
  shows "\<exists>L. calculateLevelFromPoints_loop t level pointsUsed = Some L \<and> level \<le> L \<and>
           rat_of_int (getPointsRequiredForLevel L) \<le> t \<and>
           t < rat_of_int (getPointsRequiredForLevel (L + 1))"
  using assms
proof (induction "nat \<lfloor>t - rat_of_int pointsUsed\<rfloor>" arbitrary: level pointsUsed
    rule: less_induct)
  case less
  let ?s = "getPointsRequiredForLevelUp level"
  have s: "50 \<le> ?s" using less.prems(1) by (rule getPointsRequiredForLevelUp_ge)
  have next_cum: "getPointsRequiredForLevel (level + 1) = pointsUsed + ?s"
    using less.prems(1,2) by (simp add: getPointsRequiredForLevel_step)
  show ?case
  proof (cases "t < rat_of_int (pointsUsed + ?s)")
    case True
    then have "calculateLevelFromPoints_loop t level pointsUsed = Some level"
      by (rule calculateLevelFromPoints_loop_break)
    with True less.prems next_cum show ?thesis by simp
  next
    case False
    then have le: "rat_of_int (pointsUsed + ?s) \<le> t" by simp
    have "\<lfloor>t - rat_of_int (pointsUsed + ?s)\<rfloor> = \<lfloor>t - rat_of_int pointsUsed\<rfloor> - ?s"
      by (simp add: algebra_simps) linarith
    moreover have "0 \<le> \<lfloor>t - rat_of_int (pointsUsed + ?s)\<rfloor>"
      using le by simp
    ultimately have dec: "nat \<lfloor>t - rat_of_int (pointsUsed + ?s)\<rfloor>
        < nat \<lfloor>t - rat_of_int pointsUsed\<rfloor>"
      using s by linarith
    have "\<exists>L. calculateLevelFromPoints_loop t (level + 1) (pointsUsed + ?s) = Some L \<and>
            level + 1 \<le> L \<and> rat_of_int (getPointsRequiredForLevel L) \<le> t \<and>
            t < rat_of_int (getPointsRequiredForLevel (L + 1))"
      using less.prems(1) next_cum le by (intro less.hyps [OF dec]) simp_all
    then obtain L where "calculateLevelFromPoints_loop t (level + 1) (pointsUsed + ?s) = Some L"
      "level + 1 \<le> L" "rat_of_int (getPointsRequiredForLevel L) \<le> t"
      "t < rat_of_int (getPointsRequiredForLevel (L + 1))" by blast
    moreover have "calculateLevelFromPoints_loop t level pointsUsed
        = calculateLevelFromPoints_loop t (level + 1) (pointsUsed + ?s)"
      using False by (rule calculateLevelFromPoints_loop_iter)
    ultimately show ?thesis by simp
  qed
qed


lemma getPointsRequiredForLevel_strict_mono:
  assumes "1 \<le> a" and "a < b"
  shows "getPointsRequiredForLevel a < getPointsRequiredForLevel b"
proof -
  from assms(2) have "a + 1 \<le> b" by simp
  then show ?thesis
  proof (induction b rule: int_ge_induct)
    case base
    from getPointsRequiredForLevelUp_ge [OF assms(1)] show ?case
      by (simp add: getPointsRequiredForLevel_step [OF assms(1)])
  next
    case (step i)
    from step.hyps assms(1) have "1 \<le> i" by simp
    from getPointsRequiredForLevelUp_ge [OF this] step.IH show ?case
      by (simp add: getPointsRequiredForLevel_step [OF \<open>1 \<le> i\<close>])
  qed
qed

lemma getPointsRequiredForLevel_mono:
  assumes "1 \<le> a" and "a \<le> b"
  shows "getPointsRequiredForLevel a \<le> getPointsRequiredForLevel b"
proof (cases "a = b")
  case False
  with assms getPointsRequiredForLevel_strict_mono [of a b] show ?thesis by simp
qed simp

lemma getPointsRequiredForLevel_nonneg: "0 \<le> getPointsRequiredForLevel l"
proof (cases "l \<le> 1")
  case True
  then show ?thesis by (simp add: getPointsRequiredForLevel_def)
next
  case False
  then have "getPointsRequiredForLevel 1 \<le> getPointsRequiredForLevel l"
    by (intro getPointsRequiredForLevel_mono) simp_all
  then show ?thesis by (simp add: getPointsRequiredForLevel_1)
qed

lemma level_bracket_unique:
  assumes "1 \<le> L" and "1 \<le> L'"
    and "rat_of_int (getPointsRequiredForLevel L) \<le> t"
    and "t < rat_of_int (getPointsRequiredForLevel (L + 1))"
    and "rat_of_int (getPointsRequiredForLevel L') \<le> u"
    and "u < rat_of_int (getPointsRequiredForLevel (L' + 1))"
    and "t \<le> u"
  shows "L \<le> L'"
proof (rule ccontr)
  assume "\<not> L \<le> L'"
  then have "L' + 1 \<le> L" by simp
  with assms(2) have "getPointsRequiredForLevel (L' + 1) \<le> getPointsRequiredForLevel L"
    by (intro getPointsRequiredForLevel_mono) simp_all
  then have "rat_of_int (getPointsRequiredForLevel (L' + 1))
      \<le> rat_of_int (getPointsRequiredForLevel L)" by simp
  with assms(3,6,7) show False by linarith
qed

lemma calculateLevelFromPoints_negative:
  "t < 0 \<Longrightarrow> calculateLevelFromPoints t = Some 1"
  by (simp add: calculateLevelFromPoints_def)

lemma calculateLevelFromPoints_bracket:
  assumes "0 \<le> t"
  shows "\<exists>L. calculateLevelFromPoints t = Some L \<and> 1 \<le> L \<and>
           rat_of_int (getPointsRequiredForLevel L) \<le> t \<and>
           t < rat_of_int (getPointsRequiredForLevel (L + 1))"
proof -
  have "\<exists>L. calculateLevelFromPoints_loop t 1 0 = Some L \<and> 1 \<le> L \<and>
           rat_of_int (getPointsRequiredForLevel L) \<le> t \<and>
           t < rat_of_int (getPointsRequiredForLevel (L + 1))"
    using assms
    by (intro calculateLevelFromPoints_loop_correct) (simp_all add: getPointsRequiredForLevel_1)
  with assms show ?thesis
    by (simp add: calculateLevelFromPoints_def)
qed

lemma calculateLevelFromPoints_returns:
  "\<exists>L. calculateLevelFromPoints t = Some L \<and> 1 \<le> L"
proof (cases "t < 0")
  case True
  then show ?thesis by (simp add: calculateLevelFromPoints_negative)
next
  case False
  then have "0 \<le> t" by simp
  from calculateLevelFromPoints_bracket [OF this] show ?thesis by blast
qed

lemma calculateLevelFromPoints_eqI:
  assumes "1 \<le> L"
    and "rat_of_int (getPointsRequiredForLevel L) \<le> t"
    and "t < rat_of_int (getPointsRequiredForLevel (L + 1))"
  shows "calculateLevelFromPoints t = Some L"
proof -
  have "rat_of_int 0 \<le> rat_of_int (getPointsRequiredForLevel L)"
    using getPointsRequiredForLevel_nonneg [of L] by (simp only: of_int_le_iff)
  with assms(2) have "0 \<le> t" by simp
  from calculateLevelFromPoints_bracket [OF this] obtain L' where
    L': "calculateLevelFromPoints t = Some L'" "1 \<le> L'"
      "rat_of_int (getPointsRequiredForLevel L') \<le> t"
      "t < rat_of_int (getPointsRequiredForLevel (L' + 1))" by blast
  have "L \<le> L'"
    using assms(1) L'(2) assms(2,3) L'(3,4) by (rule level_bracket_unique) simp
  moreover have "L' \<le> L"
    using L'(2) assms(1) L'(3,4) assms(2,3) by (rule level_bracket_unique) simp
  ultimately show ?thesis using L'(1) by simp
qed

lemma getLevelProgress_eq:
  assumes "calculateLevelFromPoints t = Some L"
  shows "getLevelProgress t =
    Some \<lparr>currentLevel = L,
          totalPoints = t,
          pointsInCurrentLevel = t - rat_of_int (getPointsRequiredForLevel L),
          pointsNeededForNextLevel =
            getPointsRequiredForLevel (L + 1) - getPointsRequiredForLevel L,
          progressPercentage =
            \<lfloor>double
               (double
                  ((t - rat_of_int (getPointsRequiredForLevel L))
                     / rat_of_int
                         (getPointsRequiredForLevel (L + 1) - getPointsRequiredForLevel L))
                * 100)\<rfloor>,
          pointsToNextLevel =
            rat_of_int (getPointsRequiredForLevel (L + 1) - getPointsRequiredForLevel L)
              - (t - rat_of_int (getPointsRequiredForLevel L))\<rparr>"
  using assms by (simp add: getLevelProgress_def Let_def)

lemma checkLevelUp_eq:
  assumes "calculateLevelFromPoints t = Some L" and "calculateLevelFromPoints u = Some M"
  shows "checkLevelUp t u =
    Some \<lparr>leveledUp = M > L, oldLevel = L, newLevel = M, levelsGained = M - L\<rparr>"
  using assms by (simp add: checkLevelUp_def)

section \<open>The claims\<close>

text \<open>
  Claim C2, evaluated on the code. The cumulative costs of levels 1, 2 and 3 are 0, 50 and
  125. The step cost of level 3 is \<open>\<lfloor>50 * 2.25\<rfloor> = \<lfloor>112.5\<rfloor> = 112\<close> and that of level 4 is
  \<open>\<lfloor>50 * 3.375\<rfloor> = \<lfloor>168.75\<rfloor> = 168\<close>, so the cumulative costs of levels 4 and 5 are 237
  and 405, where the claim (and the module's header comment, which lists the step costs
  113 and 169) has 238 and 407.
\<close>

theorem getPointsRequiredForLevel_reference_values:
  "getPointsRequiredForLevel 1 = 0 \<and>
   getPointsRequiredForLevel 2 = 50 \<and>
   getPointsRequiredForLevel 3 = 125 \<and>
   getPointsRequiredForLevel 4 = 237 \<and>
   getPointsRequiredForLevel 5 = 405 \<and>
   getPointsRequiredForLevelUp 3 = 112 \<and>
   getPointsRequiredForLevelUp 4 = 168"
  by (simp add: getPointsRequiredForLevel_1 getPointsRequiredForLevel_values
      getPointsRequiredForLevelUp_values)

lemma calculateLevelFromPoints_values:
  "calculateLevelFromPoints 0 = Some 1"
  "calculateLevelFromPoints 300 = Some 4"
  "calculateLevelFromPoints (25 / 2) = Some 1"
  "calculateLevelFromPoints (101 / 2) = Some 2"
  by (rule calculateLevelFromPoints_eqI;
      simp add: getPointsRequiredForLevel_1 getPointsRequiredForLevel_values)+

text \<open>
  Claim C1, inverse consistency: for every integer total \<open>T \<ge> 0\<close> the call
  \<^verbatim>\<open>calculateLevelFromPoints(T)\<close> returns a level \<open>L\<close> with
  \<open>getPointsRequiredForLevel L \<le> T < getPointsRequiredForLevel (L + 1)\<close>.
\<close>

theorem inverse_consistency:
  assumes "0 \<le> T"
  shows "\<exists>L. calculateLevelFromPoints (rat_of_int T) = Some L \<and>
           getPointsRequiredForLevel L \<le> T \<and> T < getPointsRequiredForLevel (L + 1)"
proof -
  from assms have "0 \<le> rat_of_int T" by simp
  from calculateLevelFromPoints_bracket [OF this] obtain L where
    "calculateLevelFromPoints (rat_of_int T) = Some L"
    "rat_of_int (getPointsRequiredForLevel L) \<le> rat_of_int T"
    "rat_of_int T < rat_of_int (getPointsRequiredForLevel (L + 1))" by blast
  then show ?thesis by (auto simp only: of_int_le_iff of_int_less_iff)
qed

theorem inverse_consistency_witness:
  "(0::int) \<le> 300 \<and> calculateLevelFromPoints (rat_of_int 300) = Some 4 \<and>
   getPointsRequiredForLevel 4 \<le> 300 \<and> 300 < getPointsRequiredForLevel (4 + 1)"
  using inverse_consistency [of 300]
  by (simp add: calculateLevelFromPoints_values)

text \<open>
  Claim C8, termination: for every integer total \<open>T\<close>, negative ones included, the
  \<^verbatim>\<open>while (true)\<close> loop entered at level 1 with no points used exits with a level, and so
  \<^verbatim>\<open>calculateLevelFromPoints(T)\<close> returns. The loop exits because every step cost from
  level 1 on is at least 50 (lemma \<open>getPointsRequiredForLevelUp_ge\<close>), so the points left,
  \<open>T - pointsUsed\<close>, strictly decrease on every round
  (lemma \<open>calculateLevelFromPoints_loop_correct\<close>).
\<close>

theorem calculateLevelFromPoints_terminates:
  "(\<exists>L. calculateLevelFromPoints_loop (rat_of_int T) 1 0 = Some L) \<and>
   (\<exists>L. calculateLevelFromPoints (rat_of_int T) = Some L)"
proof
  show "\<exists>L. calculateLevelFromPoints_loop (rat_of_int T) 1 0 = Some L"
  proof (cases "0 \<le> T")
    case True
    then have "\<exists>L. calculateLevelFromPoints_loop (rat_of_int T) 1 0 = Some L \<and> 1 \<le> L \<and>
        rat_of_int (getPointsRequiredForLevel L) \<le> rat_of_int T \<and>
        rat_of_int T < rat_of_int (getPointsRequiredForLevel (L + 1))"
      by (intro calculateLevelFromPoints_loop_correct)
        (simp_all add: getPointsRequiredForLevel_1)
    then show ?thesis by blast
  next
    case False
    then have "rat_of_int T < rat_of_int (0 + getPointsRequiredForLevelUp 1)"
      by (simp add: getPointsRequiredForLevelUp_values)
    then have "calculateLevelFromPoints_loop (rat_of_int T) 1 0 = Some 1"
      by (rule calculateLevelFromPoints_loop_break)
    then show ?thesis by blast
  qed
  show "\<exists>L. calculateLevelFromPoints (rat_of_int T) = Some L"
    using calculateLevelFromPoints_returns [of "rat_of_int T"] by blast
qed

text \<open>
  Claim C6, monotonicity: for integer totals \<open>0 \<le> a \<le> b\<close> both calls of
  \<^verbatim>\<open>calculateLevelFromPoints\<close> return and the level of \<open>a\<close> is at most the level of \<open>b\<close>;
  \<^verbatim>\<open>getPointsRequiredForLevel\<close> is strictly increasing on the levels from 1 on, and its
  value (an integer by its type) is never negative, at any level.
\<close>

theorem leveling_monotone:
  "(0 \<le> a \<and> a \<le> b \<longrightarrow>
      (\<exists>La Lb. calculateLevelFromPoints (rat_of_int a) = Some La \<and>
               calculateLevelFromPoints (rat_of_int b) = Some Lb \<and> La \<le> Lb)) \<and>
   (1 \<le> l \<and> l < m \<longrightarrow> getPointsRequiredForLevel l < getPointsRequiredForLevel m) \<and>
   0 \<le> getPointsRequiredForLevel k"
proof (intro conjI impI)
  assume ab: "0 \<le> a \<and> a \<le> b"
  then have "0 \<le> rat_of_int a" "0 \<le> rat_of_int b" by simp_all
  from calculateLevelFromPoints_bracket [OF this(1)] obtain La where
    La: "calculateLevelFromPoints (rat_of_int a) = Some La" "1 \<le> La"
      "rat_of_int (getPointsRequiredForLevel La) \<le> rat_of_int a"
      "rat_of_int a < rat_of_int (getPointsRequiredForLevel (La + 1))" by blast
  from calculateLevelFromPoints_bracket [OF \<open>0 \<le> rat_of_int b\<close>] obtain Lb where
    Lb: "calculateLevelFromPoints (rat_of_int b) = Some Lb" "1 \<le> Lb"
      "rat_of_int (getPointsRequiredForLevel Lb) \<le> rat_of_int b"
      "rat_of_int b < rat_of_int (getPointsRequiredForLevel (Lb + 1))" by blast
  have "La \<le> Lb"
    using La(2) Lb(2) La(3,4) Lb(3,4) by (rule level_bracket_unique) (use ab in simp)
  with La(1) Lb(1) show "\<exists>La Lb. calculateLevelFromPoints (rat_of_int a) = Some La \<and>
      calculateLevelFromPoints (rat_of_int b) = Some Lb \<and> La \<le> Lb" by blast
next
  assume "1 \<le> l \<and> l < m"
  then show "getPointsRequiredForLevel l < getPointsRequiredForLevel m"
    by (intro getPointsRequiredForLevel_strict_mono) simp_all
next
  show "0 \<le> getPointsRequiredForLevel k" by (rule getPointsRequiredForLevel_nonneg)
qed

theorem leveling_monotone_witness:
  "((0::int) \<le> 0 \<and> (0::int) \<le> 300) \<and>
   calculateLevelFromPoints (rat_of_int 0) = Some 1 \<and>
   calculateLevelFromPoints (rat_of_int 300) = Some 4 \<and> (1::int) \<le> 4 \<and>
   ((1::int) \<le> 2 \<and> (2::int) < 5) \<and>
   getPointsRequiredForLevel 2 < getPointsRequiredForLevel 5 \<and>
   0 \<le> getPointsRequiredForLevel 3"
  using leveling_monotone [of 0 300 2 5 3]
  by (simp add: calculateLevelFromPoints_values)

subsection \<open>Evaluation at concrete totals\<close>

lemma double_le_int_nonneg:
  assumes "0 \<le> x" and "x \<le> rat_of_int c" and "0 \<le> c" and "c \<le> 2 ^ 52"
  shows "double x \<le> rat_of_int c"
proof (cases "x = 0")
  case True
  with assms(3) show ?thesis by (simp add: double_0)
next
  case False
  with assms(1) have "0 < x" by simp
  then show ?thesis using assms(2,4) by (rule double_le_int)
qed

lemma floor_rat_numeral:
  "\<lfloor>numeral a / numeral b :: rat\<rfloor> = numeral a div numeral b"
  by (metis floor_divide_of_int_eq of_int_numeral)

lemma calculateLevelFromPoints_29: "calculateLevelFromPoints 29 = Some 1"
  by (rule calculateLevelFromPoints_eqI;
      simp add: getPointsRequiredForLevel_1 getPointsRequiredForLevel_values)

lemma getLevelProgress_level_1:
  assumes "calculateLevelFromPoints t = Some 1"
  shows "getLevelProgress t =
    Some \<lparr>currentLevel = 1, totalPoints = t, pointsInCurrentLevel = t,
          pointsNeededForNextLevel = 50,
          progressPercentage = \<lfloor>double (double (t / 50) * 100)\<rfloor>,
          pointsToNextLevel = 50 - t\<rparr>"
  by (simp add: getLevelProgress_eq [OF assms] getPointsRequiredForLevel_1
      getPointsRequiredForLevel_values)

text \<open>
  The percentage at the totals 29, -7, -50, 12.5 and 14.5 of level 1, by evaluation of the
  rounding: the exact values are 58, -14, -100, 25 and 29, and the doubles give 57, -15,
  -100, 25 and 28.
\<close>

lemma percentage_values:
  "\<lfloor>double (double (29 / 50) * 100)\<rfloor> = 57"
  "\<lfloor>double (double (- 7 / 50) * 100)\<rfloor> = - 15"
  "\<lfloor>double (double (- 50 / 50) * 100)\<rfloor> = - 100"
  "\<lfloor>double (double ((25 / 2) / 50) * 100)\<rfloor> = 25"
  "\<lfloor>double (double ((29 / 2) / 50) * 100)\<rfloor> = 28"
  by code_simp+

lemma getLevelProgress_values:
  "getLevelProgress 29 =
     Some \<lparr>currentLevel = 1, totalPoints = 29, pointsInCurrentLevel = 29,
           pointsNeededForNextLevel = 50, progressPercentage = 57,
           pointsToNextLevel = 21\<rparr>"
  "getLevelProgress (- 7) =
     Some \<lparr>currentLevel = 1, totalPoints = - 7, pointsInCurrentLevel = - 7,
           pointsNeededForNextLevel = 50, progressPercentage = - 15,
           pointsToNextLevel = 57\<rparr>"
  "getLevelProgress (- 50) =
     Some \<lparr>currentLevel = 1, totalPoints = - 50, pointsInCurrentLevel = - 50,
           pointsNeededForNextLevel = 50, progressPercentage = - 100,
           pointsToNextLevel = 100\<rparr>"
  "getLevelProgress (25 / 2) =
     Some \<lparr>currentLevel = 1, totalPoints = 25 / 2, pointsInCurrentLevel = 25 / 2,
           pointsNeededForNextLevel = 50, progressPercentage = 25,
           pointsToNextLevel = 75 / 2\<rparr>"
proof -
  show "getLevelProgress 29 =
     Some \<lparr>currentLevel = 1, totalPoints = 29, pointsInCurrentLevel = 29,
           pointsNeededForNextLevel = 50, progressPercentage = 57,
           pointsToNextLevel = 21\<rparr>"
    unfolding getLevelProgress_level_1 [OF calculateLevelFromPoints_29]
      percentage_values by simp
  have "calculateLevelFromPoints (- 7) = Some 1"
    by (rule calculateLevelFromPoints_negative) simp
  then show "getLevelProgress (- 7) =
     Some \<lparr>currentLevel = 1, totalPoints = - 7, pointsInCurrentLevel = - 7,
           pointsNeededForNextLevel = 50, progressPercentage = - 15,
           pointsToNextLevel = 57\<rparr>"
    unfolding getLevelProgress_level_1 [OF \<open>calculateLevelFromPoints (- 7) = Some 1\<close>]
      percentage_values by simp
  have "calculateLevelFromPoints (- 50) = Some 1"
    by (rule calculateLevelFromPoints_negative) simp
  then show "getLevelProgress (- 50) =
     Some \<lparr>currentLevel = 1, totalPoints = - 50, pointsInCurrentLevel = - 50,
           pointsNeededForNextLevel = 50, progressPercentage = - 100,
           pointsToNextLevel = 100\<rparr>"
    unfolding getLevelProgress_level_1 [OF \<open>calculateLevelFromPoints (- 50) = Some 1\<close>]
      percentage_values by simp
  show "getLevelProgress (25 / 2) =
     Some \<lparr>currentLevel = 1, totalPoints = 25 / 2, pointsInCurrentLevel = 25 / 2,
           pointsNeededForNextLevel = 50, progressPercentage = 25,
           pointsToNextLevel = 75 / 2\<rparr>"
    unfolding getLevelProgress_level_1 [OF calculateLevelFromPoints_values(3)]
      percentage_values by simp
qed

lemma checkLevelUp_0_300:
  "checkLevelUp 0 300 =
     Some \<lparr>leveledUp = True, oldLevel = 1, newLevel = 4, levelsGained = 3\<rparr>"
  by (simp add: checkLevelUp_eq [where L = 1 and M = 4] calculateLevelFromPoints_values)

lemma fractional_counterexample_aux:
  "(25 / 2 :: rat) \<notin> \<int>"
proof
  assume "(25 / 2 :: rat) \<in> \<int>"
  then have "frac (25 / 2 :: rat) = 0" by (simp only: frac_eq_0_iff)
  then show False by (simp add: frac_def floor_rat_numeral)
qed

lemma calculateLevelFromPoints_floor:
  "calculateLevelFromPoints (rat_of_int \<lfloor>t\<rfloor>) = calculateLevelFromPoints t"
proof (cases "t < 0")
  case True
  then have "\<lfloor>t\<rfloor> < 0" by (simp only: floor_less_zero)
  then have "rat_of_int \<lfloor>t\<rfloor> < 0" by simp
  with True show ?thesis by (simp add: calculateLevelFromPoints_negative)
next
  case False
  then have "0 \<le> t" by simp
  from calculateLevelFromPoints_bracket [OF this] obtain L where
    L: "calculateLevelFromPoints t = Some L" "1 \<le> L"
      "rat_of_int (getPointsRequiredForLevel L) \<le> t"
      "t < rat_of_int (getPointsRequiredForLevel (L + 1))" by blast
  from L(3) have "getPointsRequiredForLevel L \<le> \<lfloor>t\<rfloor>" by (simp only: le_floor_iff)
  then have lo: "rat_of_int (getPointsRequiredForLevel L) \<le> rat_of_int \<lfloor>t\<rfloor>"
    by (simp only: of_int_le_iff)
  from L(4) have "\<lfloor>t\<rfloor> < getPointsRequiredForLevel (L + 1)" by (simp only: floor_less_iff)
  then have hi: "rat_of_int \<lfloor>t\<rfloor> < rat_of_int (getPointsRequiredForLevel (L + 1))"
    by (simp only: of_int_less_iff)
  from L(2) lo hi have "calculateLevelFromPoints (rat_of_int \<lfloor>t\<rfloor>) = Some L"
    by (rule calculateLevelFromPoints_eqI)
  with L(1) show ?thesis by simp
qed

lemma getLevelProgress_divisor:
  assumes "getLevelProgress t = Some r"
  shows "50 \<le> pointsNeededForNextLevel r"
proof -
  obtain L where L: "calculateLevelFromPoints t = Some L" "1 \<le> L"
    using calculateLevelFromPoints_returns [of t] by blast
  from assms have "pointsNeededForNextLevel r
      = getPointsRequiredForLevel (L + 1) - getPointsRequiredForLevel L"
    unfolding getLevelProgress_eq [OF L(1)] by auto
  also have "\<dots> = getPointsRequiredForLevelUp L"
    by (simp add: getPointsRequiredForLevel_step [OF L(2)])
  finally show ?thesis
    using getPointsRequiredForLevelUp_ge [OF L(2)] by simp
qed

subsection \<open>The two copies\<close>

lemma client_getPointsRequiredForLevelUp_eq:
  "client_getPointsRequiredForLevelUp = getPointsRequiredForLevelUp"
  by (rule ext)
    (simp add: client_getPointsRequiredForLevelUp_def getPointsRequiredForLevelUp_def
      client_BASE_POINTS_def BASE_POINTS_def client_MULTIPLIER_def MULTIPLIER_def)

lemma client_getPointsRequiredForLevel_loop_eq:
  "client_getPointsRequiredForLevel_loop level i acc = getPointsRequiredForLevel_loop level i acc"
proof (induction level i acc rule: getPointsRequiredForLevel_loop.induct)
  case (1 level i acc)
  show ?case
  proof (cases "i < level")
    case True
    have "client_getPointsRequiredForLevel_loop level i acc
        = client_getPointsRequiredForLevel_loop level (i + 1)
            (acc + getPointsRequiredForLevelUp i)"
      using True
      by (subst client_getPointsRequiredForLevel_loop.simps)
        (simp add: client_getPointsRequiredForLevelUp_eq)
    also have "\<dots> = getPointsRequiredForLevel_loop level (i + 1)
            (acc + getPointsRequiredForLevelUp i)"
      using True by (rule "1.IH")
    also have "\<dots> = getPointsRequiredForLevel_loop level i acc"
      using True by (rule getPointsRequiredForLevel_loop_iter [symmetric])
    finally show ?thesis .
  next
    case False
    then have "client_getPointsRequiredForLevel_loop level i acc = acc"
      by (subst client_getPointsRequiredForLevel_loop.simps) simp
    with False show ?thesis by (simp add: getPointsRequiredForLevel_loop_exit)
  qed
qed

lemma client_getPointsRequiredForLevel_eq:
  "client_getPointsRequiredForLevel = getPointsRequiredForLevel"
  by (rule ext)
    (simp add: client_getPointsRequiredForLevel_def getPointsRequiredForLevel_def
      client_getPointsRequiredForLevel_loop_eq)

lemma client_loop_le:
  assumes "client_calculateLevelFromPoints_loop t level used = Some L"
  shows "calculateLevelFromPoints_loop t level used = Some L"
proof (rule client_calculateLevelFromPoints_loop.raw_induct
    [where P = "\<lambda>t level used L. calculateLevelFromPoints_loop t level used = Some L",
      OF _ assms])
  fix f :: "rat \<Rightarrow> int \<Rightarrow> int \<Rightarrow> int option" and t level used L
  assume IH: "\<And>t level used y. f t level used = Some y \<Longrightarrow>
    calculateLevelFromPoints_loop t level used = Some y"
  assume body: "(let pointsNeeded = client_getPointsRequiredForLevelUp level
    in if t < rat_of_int (used + pointsNeeded) then Some level
       else f t (level + 1) (used + pointsNeeded)) = Some L"
  show "calculateLevelFromPoints_loop t level used = Some L"
  proof (cases "t < rat_of_int (used + getPointsRequiredForLevelUp level)")
    case True
    with body show ?thesis
      by (simp add: client_getPointsRequiredForLevelUp_eq calculateLevelFromPoints_loop_break)
  next
    case False
    with body have "f t (level + 1) (used + getPointsRequiredForLevelUp level) = Some L"
      by (simp add: client_getPointsRequiredForLevelUp_eq)
    then have "calculateLevelFromPoints_loop t (level + 1)
        (used + getPointsRequiredForLevelUp level) = Some L" by (rule IH)
    then show ?thesis by (simp only: calculateLevelFromPoints_loop_iter [OF False])
  qed
qed

lemma client_calculateLevelFromPoints_loop_unfold:
  "client_calculateLevelFromPoints_loop t level used =
     (if t < rat_of_int (used + getPointsRequiredForLevelUp level) then Some level
      else client_calculateLevelFromPoints_loop t (level + 1)
             (used + getPointsRequiredForLevelUp level))"
  by (subst client_calculateLevelFromPoints_loop.simps)
    (simp add: client_getPointsRequiredForLevelUp_eq)

lemma loop_le_client:
  assumes "calculateLevelFromPoints_loop t level used = Some L"
  shows "client_calculateLevelFromPoints_loop t level used = Some L"
proof (rule calculateLevelFromPoints_loop.raw_induct
    [where P = "\<lambda>t level used L. client_calculateLevelFromPoints_loop t level used = Some L",
      OF _ assms])
  fix f :: "rat \<Rightarrow> int \<Rightarrow> int \<Rightarrow> int option" and t level used L
  assume IH: "\<And>t level used y. f t level used = Some y \<Longrightarrow>
    client_calculateLevelFromPoints_loop t level used = Some y"
  assume body: "(let pointsNeeded = getPointsRequiredForLevelUp level
    in if t < rat_of_int (used + pointsNeeded) then Some level
       else f t (level + 1) (used + pointsNeeded)) = Some L"
  show "client_calculateLevelFromPoints_loop t level used = Some L"
  proof (cases "t < rat_of_int (used + getPointsRequiredForLevelUp level)")
    case True
    with body have "L = level" by simp
    with True show ?thesis
      by (subst client_calculateLevelFromPoints_loop_unfold) simp
  next
    case False
    with body have "f t (level + 1) (used + getPointsRequiredForLevelUp level) = Some L"
      by simp
    then have "client_calculateLevelFromPoints_loop t (level + 1)
        (used + getPointsRequiredForLevelUp level) = Some L" by (rule IH)
    with False show ?thesis
      by (subst client_calculateLevelFromPoints_loop_unfold) simp
  qed
qed

lemma client_calculateLevelFromPoints_loop_eq:
  "client_calculateLevelFromPoints_loop t level used
     = calculateLevelFromPoints_loop t level used"
proof (cases "calculateLevelFromPoints_loop t level used")
  case server: None
  show ?thesis
  proof (cases "client_calculateLevelFromPoints_loop t level used")
    case None
    with server show ?thesis by (simp only:)
  next
    case (Some L)
    then have "calculateLevelFromPoints_loop t level used = Some L" by (rule client_loop_le)
    with server show ?thesis by simp
  qed
next
  case (Some L)
  then have "client_calculateLevelFromPoints_loop t level used = Some L"
    by (rule loop_le_client)
  with Some show ?thesis by (simp only:)
qed

lemma client_calculateLevelFromPoints_eq:
  "client_calculateLevelFromPoints = calculateLevelFromPoints"
  by (rule ext)
    (simp only: client_calculateLevelFromPoints_def calculateLevelFromPoints_def
      client_calculateLevelFromPoints_loop_eq)

subsection \<open>Progress, level-up detection and malformed totals\<close>

text \<open>
  Claim C3, as the code has it: \<^verbatim>\<open>checkLevelUp(0, 300)\<close> returns \<open>oldLevel = 1\<close>,
  \<open>newLevel = 4\<close>, \<open>leveledUp = true\<close> and \<open>levelsGained = 3\<close>. A total of 300 lies between
  the cumulative costs of level 4 (237) and of level 5 (405), so the new level is 4 and
  not 5, and three levels are gained, not four.
\<close>

theorem checkLevelUp_0_300_amended:
  "checkLevelUp 0 300 =
     Some \<lparr>leveledUp = True, oldLevel = 1, newLevel = 4, levelsGained = 3\<rparr>"
  by (rule checkLevelUp_0_300)

theorem checkLevelUp_0_300_counterexample:
  "map_option newLevel (checkLevelUp 0 300) \<noteq> Some 5 \<and>
   map_option levelsGained (checkLevelUp 0 300) \<noteq> Some 4"
  by (simp add: checkLevelUp_0_300)

text \<open>
  Claim C4, as the code has it. No function of the module validates its argument or
  raises: a total that is not an integer is taken as it is. For every fractional total
  \<open>t\<close>, \<^verbatim>\<open>calculateLevelFromPoints(t)\<close> returns a level, the level of \<open>\<lfloor>t\<rfloor>\<close>, and
  \<^verbatim>\<open>getLevelProgress(t)\<close> returns a report with that level, with \<open>totalPoints = t\<close> and with
  a fractional \<open>pointsInCurrentLevel\<close>.
\<close>

theorem fractional_total:
  assumes "t \<notin> \<int>"
  shows "\<exists>L. calculateLevelFromPoints t = Some L \<and>
           calculateLevelFromPoints (rat_of_int \<lfloor>t\<rfloor>) = Some L \<and>
           (\<exists>r. getLevelProgress t = Some r \<and> currentLevel r = L \<and> totalPoints r = t \<and>
                pointsInCurrentLevel r \<notin> \<int>)"
proof -
  obtain L where L: "calculateLevelFromPoints t = Some L"
    using calculateLevelFromPoints_returns [of t] by blast
  have "t - rat_of_int (getPointsRequiredForLevel L) \<notin> \<int>"
  proof
    assume "t - rat_of_int (getPointsRequiredForLevel L) \<in> \<int>"
    then have "t - rat_of_int (getPointsRequiredForLevel L)
        + rat_of_int (getPointsRequiredForLevel L) \<in> \<int>"
      by (intro Ints_add Ints_of_int)
    with assms show False by simp
  qed
  with L show ?thesis
    by (simp add: calculateLevelFromPoints_floor getLevelProgress_eq [OF L])
qed

theorem fractional_total_witness:
  "(25 / 2 :: rat) \<notin> \<int> \<and>
   calculateLevelFromPoints (25 / 2) = Some 1 \<and>
   calculateLevelFromPoints (rat_of_int \<lfloor>25 / 2 :: rat\<rfloor>) = Some 1 \<and>
   getLevelProgress (25 / 2) =
     Some \<lparr>currentLevel = 1, totalPoints = 25 / 2, pointsInCurrentLevel = 25 / 2,
           pointsNeededForNextLevel = 50, progressPercentage = 25,
           pointsToNextLevel = 75 / 2\<rparr>"
  using fractional_total [OF fractional_counterexample_aux]
  by (simp add: fractional_counterexample_aux calculateLevelFromPoints_values
      getLevelProgress_values calculateLevelFromPoints_floor)

theorem fractional_total_counterexample:
  "(25 / 2 :: rat) \<notin> \<int> \<and>
   calculateLevelFromPoints (25 / 2) = Some 1 \<and>
   getLevelProgress (25 / 2) =
     Some \<lparr>currentLevel = 1, totalPoints = 25 / 2, pointsInCurrentLevel = 25 / 2,
           pointsNeededForNextLevel = 50, progressPercentage = 25,
           pointsToNextLevel = 75 / 2\<rparr> \<and>
   checkLevelUp (25 / 2) (101 / 2) =
     Some \<lparr>leveledUp = True, oldLevel = 1, newLevel = 2, levelsGained = 1\<rparr>"
  by (simp add: fractional_counterexample_aux calculateLevelFromPoints_values
      getLevelProgress_values checkLevelUp_eq [where L = 1 and M = 2])

text \<open>
  Claim C5, as the code has it. For every negative integer total \<open>T\<close>,
  \<^verbatim>\<open>calculateLevelFromPoints(T)\<close> returns 1 and \<^verbatim>\<open>getLevelProgress(T)\<close> returns a report (no
  error) with \<open>currentLevel = 1\<close> and \<open>pointsNeededForNextLevel = 50\<close>; the progress is not
  clamped to zero: \<open>pointsInCurrentLevel = T\<close>, \<open>progressPercentage\<close> (the floor of the
  rounded product, as the code computes it) is negative and \<open>pointsToNextLevel = 50 - T\<close>.
\<close>

theorem negative_total:
  assumes "T < 0"
  shows "calculateLevelFromPoints (rat_of_int T) = Some 1 \<and>
    (\<exists>r. getLevelProgress (rat_of_int T) = Some r \<and> currentLevel r = 1 \<and>
         pointsInCurrentLevel r = rat_of_int T \<and> pointsNeededForNextLevel r = 50 \<and>
         progressPercentage r < 0 \<and> pointsToNextLevel r = 50 - rat_of_int T)"
proof -
  from assms have neg: "rat_of_int T < 0" by simp
  then have 1: "calculateLevelFromPoints (rat_of_int T) = Some 1"
    by (rule calculateLevelFromPoints_negative)
  from neg have "rat_of_int T / 50 < 0" by simp
  then have "double (rat_of_int T / 50) < 0" by (rule double_neg)
  then have "double (rat_of_int T / 50) * 100 < 0" by simp
  then have "double (double (rat_of_int T / 50) * 100) < 0" by (rule double_neg)
  then have "\<lfloor>double (double (rat_of_int T / 50) * 100)\<rfloor> < 0"
    by (simp only: floor_less_zero)
  with 1 show ?thesis by (simp add: getLevelProgress_level_1)
qed

theorem negative_total_witness:
  "(- 7 :: int) < 0 \<and> calculateLevelFromPoints (rat_of_int (- 7)) = Some 1 \<and>
   getLevelProgress (rat_of_int (- 7)) =
     Some \<lparr>currentLevel = 1, totalPoints = - 7, pointsInCurrentLevel = - 7,
           pointsNeededForNextLevel = 50, progressPercentage = - 15,
           pointsToNextLevel = 57\<rparr>"
  using negative_total [of "- 7"]
  by (simp add: getLevelProgress_values)

theorem negative_total_counterexample:
  "getLevelProgress (rat_of_int (- 50)) =
     Some \<lparr>currentLevel = 1, totalPoints = - 50, pointsInCurrentLevel = - 50,
           pointsNeededForNextLevel = 50, progressPercentage = - 100,
           pointsToNextLevel = 100\<rparr>"
  by (simp add: getLevelProgress_values)

text \<open>
  Claim C7, progress bounds: for every integer total \<open>T \<ge> 0\<close>, \<^verbatim>\<open>getLevelProgress(T)\<close>
  returns a report with \<open>0 \<le> progressPercentage \<le> 100\<close>, \<open>pointsToNextLevel \<ge> 0\<close> and a
  divisor \<open>pointsNeededForNextLevel \<ge> 1\<close>, so the quotient is never a division by zero.
  The percentage is the floor of the rounded product of the rounded quotient; the bounds
  hold because rounding to the nearest double keeps the sign and does not pass the doubles
  1 and 100 (lemmas \<open>double_nonneg\<close> and \<open>double_le_int_nonneg\<close>).
\<close>

theorem progress_bounds:
  assumes "0 \<le> T"
  shows "\<exists>r. getLevelProgress (rat_of_int T) = Some r \<and>
           0 \<le> progressPercentage r \<and> progressPercentage r \<le> 100 \<and>
           0 \<le> pointsToNextLevel r \<and> 1 \<le> pointsNeededForNextLevel r"
proof -
  let ?t = "rat_of_int T"
  from assms have "0 \<le> ?t" by simp
  from calculateLevelFromPoints_bracket [OF this] obtain L where
    L: "calculateLevelFromPoints ?t = Some L" "1 \<le> L"
      "rat_of_int (getPointsRequiredForLevel L) \<le> ?t"
      "?t < rat_of_int (getPointsRequiredForLevel (L + 1))" by blast
  let ?p = "?t - rat_of_int (getPointsRequiredForLevel L)"
  let ?n = "getPointsRequiredForLevel (L + 1) - getPointsRequiredForLevel L"
  let ?q = "double (?p / rat_of_int ?n)"
  have n: "?n = getPointsRequiredForLevelUp L"
    by (simp add: getPointsRequiredForLevel_step [OF L(2)])
  with getPointsRequiredForLevelUp_ge [OF L(2)] have n50: "50 \<le> ?n" by simp
  then have npos: "0 < rat_of_int ?n" by simp
  have p0: "0 \<le> ?p" using L(3) by simp
  have pn: "?p < rat_of_int ?n" using L(4) by simp
  have quot0: "0 \<le> ?p / rat_of_int ?n" using p0 npos by simp
  have quot1: "?p / rat_of_int ?n \<le> rat_of_int 1" using pn npos by (simp add: divide_le_eq)
  have q0: "0 \<le> ?q" using quot0 by (rule double_nonneg)
  have "?q \<le> rat_of_int 1" using quot0 quot1 by (rule double_le_int_nonneg) simp_all
  then have q1: "?q \<le> 1" by simp
  have prod0: "0 \<le> ?q * 100" using q0 by simp
  have "c * 100 \<le> rat_of_int 100" if "c \<le> 1" for c :: rat
    using that by simp
  with q1 have prod1: "?q * 100 \<le> rat_of_int 100" by blast
  have r0: "0 \<le> double (?q * 100)" using prod0 by (rule double_nonneg)
  have r1: "double (?q * 100) \<le> rat_of_int 100"
    using prod0 prod1 by (rule double_le_int_nonneg) simp_all
  from r0 have lo: "0 \<le> \<lfloor>double (?q * 100)\<rfloor>" by (simp only: zero_le_floor)
  from r1 have "\<lfloor>double (?q * 100)\<rfloor> \<le> \<lfloor>rat_of_int 100\<rfloor>" by (rule floor_mono)
  then have hi: "\<lfloor>double (?q * 100)\<rfloor> \<le> 100" by simp
  have rest: "0 \<le> rat_of_int ?n - ?p" using pn by simp
  from n50 have "1 \<le> ?n" by simp
  with lo hi rest show ?thesis
    by (simp only: getLevelProgress_eq [OF L(1)] LevelProgress.simps option.inject
        simp_thms ex_simps)
qed

theorem progress_bounds_witness:
  "(0::int) \<le> 29 \<and>
   getLevelProgress (rat_of_int 29) =
     Some \<lparr>currentLevel = 1, totalPoints = 29, pointsInCurrentLevel = 29,
           pointsNeededForNextLevel = 50, progressPercentage = 57,
           pointsToNextLevel = 21\<rparr> \<and>
   (0::int) \<le> 57 \<and> (57::int) \<le> 100 \<and> (0::rat) \<le> 21 \<and> (1::int) \<le> 50"
  using progress_bounds [of 29]
  by (simp add: getLevelProgress_values)

text \<open>
  Claim C9, the two copies agree: at every level and every total the client copy of
  \<^verbatim>\<open>getPointsRequiredForLevel\<close>, \<^verbatim>\<open>getPointsRequiredForLevelUp\<close>,
  \<^verbatim>\<open>calculateLevelFromPoints\<close> and \<^verbatim>\<open>getLevelProgress\<close> returns what the server copy
  returns (and loops where it loops), and both copies have \<open>BASE_POINTS = 50\<close> and
  \<open>MULTIPLIER = 1.5\<close>.
\<close>

theorem client_server_equal:
  "client_getPointsRequiredForLevel level = getPointsRequiredForLevel level \<and>
   client_getPointsRequiredForLevelUp level = getPointsRequiredForLevelUp level \<and>
   client_calculateLevelFromPoints t = calculateLevelFromPoints t \<and>
   client_getLevelProgress t = getLevelProgress t \<and>
   client_BASE_POINTS = 50 \<and> BASE_POINTS = 50 \<and>
   client_MULTIPLIER = 3 / 2 \<and> MULTIPLIER = 3 / 2"
  by (simp only: client_getPointsRequiredForLevel_eq client_getPointsRequiredForLevelUp_eq
      client_calculateLevelFromPoints_eq client_getLevelProgress_def getLevelProgress_def
      client_BASE_POINTS_def BASE_POINTS_def client_MULTIPLIER_def MULTIPLIER_def simp_thms)

text \<open>
  Claim C10, decreasing points: for integer totals \<open>before > after \<ge> 0\<close>,
  \<^verbatim>\<open>checkLevelUp(before, after)\<close> returns a result with \<open>leveledUp = false\<close> and
  \<open>levelsGained\<close> the level of \<open>after\<close> minus the level of \<open>before\<close>, which is zero or
  negative; and in every result of \<^verbatim>\<open>checkLevelUp\<close>, \<open>leveledUp\<close> holds exactly when the new
  level is strictly greater than the old one.
\<close>

theorem checkLevelUp_decrease:
  "(0 \<le> after \<and> after < before \<longrightarrow>
     (\<exists>Lb La. calculateLevelFromPoints (rat_of_int before) = Some Lb \<and>
              calculateLevelFromPoints (rat_of_int after) = Some La \<and> La - Lb \<le> 0 \<and>
              checkLevelUp (rat_of_int before) (rat_of_int after) =
                Some \<lparr>leveledUp = False, oldLevel = Lb, newLevel = La,
                      levelsGained = La - Lb\<rparr>)) \<and>
   (checkLevelUp x y = Some r \<longrightarrow> (leveledUp r \<longleftrightarrow> oldLevel r < newLevel r))"
proof (intro conjI impI)
  assume ab: "0 \<le> after \<and> after < before"
  then have "0 \<le> rat_of_int after" "0 \<le> rat_of_int before" by simp_all
  from calculateLevelFromPoints_bracket [OF this(1)] obtain La where
    La: "calculateLevelFromPoints (rat_of_int after) = Some La" "1 \<le> La"
      "rat_of_int (getPointsRequiredForLevel La) \<le> rat_of_int after"
      "rat_of_int after < rat_of_int (getPointsRequiredForLevel (La + 1))" by blast
  from calculateLevelFromPoints_bracket [OF \<open>0 \<le> rat_of_int before\<close>] obtain Lb where
    Lb: "calculateLevelFromPoints (rat_of_int before) = Some Lb" "1 \<le> Lb"
      "rat_of_int (getPointsRequiredForLevel Lb) \<le> rat_of_int before"
      "rat_of_int before < rat_of_int (getPointsRequiredForLevel (Lb + 1))" by blast
  have le: "La \<le> Lb"
    using La(2) Lb(2) La(3,4) Lb(3,4) by (rule level_bracket_unique) (use ab in simp)
  then have "checkLevelUp (rat_of_int before) (rat_of_int after) =
      Some \<lparr>leveledUp = False, oldLevel = Lb, newLevel = La, levelsGained = La - Lb\<rparr>"
    by (simp add: checkLevelUp_eq [OF Lb(1) La(1)])
  with La(1) Lb(1) le
  show "\<exists>Lb La. calculateLevelFromPoints (rat_of_int before) = Some Lb \<and>
      calculateLevelFromPoints (rat_of_int after) = Some La \<and> La - Lb \<le> 0 \<and>
      checkLevelUp (rat_of_int before) (rat_of_int after) =
        Some \<lparr>leveledUp = False, oldLevel = Lb, newLevel = La, levelsGained = La - Lb\<rparr>"
    by simp
next
  assume r: "checkLevelUp x y = Some r"
  obtain L where L: "calculateLevelFromPoints x = Some L"
    using calculateLevelFromPoints_returns [of x] by blast
  obtain M where M: "calculateLevelFromPoints y = Some M"
    using calculateLevelFromPoints_returns [of y] by blast
  from r show "leveledUp r \<longleftrightarrow> oldLevel r < newLevel r"
    unfolding checkLevelUp_eq [OF L M] by auto
qed

theorem checkLevelUp_decrease_witness:
  "((0::int) \<le> 0 \<and> (0::int) < 300) \<and>
   checkLevelUp (rat_of_int 300) (rat_of_int 0) =
     Some \<lparr>leveledUp = False, oldLevel = 4, newLevel = 1, levelsGained = - 3\<rparr> \<and>
   checkLevelUp 0 300 =
     Some \<lparr>leveledUp = True, oldLevel = 1, newLevel = 4, levelsGained = 3\<rparr> \<and>
   (leveledUp \<lparr>leveledUp = True, oldLevel = 1, newLevel = 4, levelsGained = 3\<rparr>
      \<longleftrightarrow> (1::int) < 4)"
  using checkLevelUp_decrease [of 0 300 0 300
      "\<lparr>leveledUp = True, oldLevel = 1, newLevel = 4, levelsGained = 3\<rparr>"]
  by (simp add: calculateLevelFromPoints_values
      checkLevelUp_eq [where L = 1 and M = 4] checkLevelUp_eq [where L = 4 and M = 1])

end
